theory Spec2Isabelle
  imports Complex_Main
begin

section \<open>Data model of \<^verbatim>\<open>src/build.ts\<close>\<close>

text \<open>
  The script keeps its configuration in the constant table \<^verbatim>\<open>settings\<close>.  The fields read by
  the resampling loop and by the transcoding calls are \<^verbatim>\<open>fps\<close>, \<^verbatim>\<open>width\<close> and \<^verbatim>\<open>height\<close>.
  The source writes \<^verbatim>\<open>width: 1280 * 0.2\<close> and \<^verbatim>\<open>height: 720 * 0.2\<close>; in IEEE double
  arithmetic these products are the integers 256 and 144.
\<close>

record settings =
  fps :: nat
  width :: nat
  height :: nat

definition default_settings :: settings where
  "default_settings = \<lparr>fps = 25, width = 256, height = 144\<rparr>"

text \<open>
  \<^verbatim>\<open>interface CaptureData { data: string | null; timestamp: number }\<close>.  The timestamp of a
  sample is the value of \<^verbatim>\<open>Date.now()\<close>, an integer number of milliseconds.
\<close>

record CaptureData =
  data :: "string option"
  timestamp :: int

text \<open>
  JavaScript numbers as the lookup uses them: finite values and \<^verbatim>\<open>Infinity\<close>.  Finite values
  are modelled as exact rationals.  With \<^verbatim>\<open>settings.fps = 25\<close> and integer timestamps every
  intermediate value of the source is an integer far below \<open>2^53\<close>, where double arithmetic is
  exact.
\<close>

datatype jsnumber = Num rat | Infinity

fun js_ge :: "jsnumber \<Rightarrow> rat \<Rightarrow> bool" where
  "js_ge (Num t) x = (x \<le> t)"
| "js_ge Infinity x = True"

text \<open>\<^verbatim>\<open>Array.prototype.findIndex\<close>: the first index whose element satisfies the predicate,
  \<open>-1\<close> when there is none.\<close>

fun findIndex :: "('a \<Rightarrow> bool) \<Rightarrow> 'a list \<Rightarrow> int" where
  "findIndex P [] = - 1"
| "findIndex P (x # xs) =
     (if P x then 0
      else (let r = findIndex P xs in if r < 0 then - 1 else r + 1))"

text \<open>Reading \<^verbatim>\<open>xs[i]\<close>: \<^verbatim>\<open>undefined\<close> (here \<open>None\<close>) outside the array.\<close>

definition js_index :: "'a list \<Rightarrow> int \<Rightarrow> 'a option" where
  "js_index xs i = (if 0 \<le> i \<and> nat i < length xs then Some (xs ! nat i) else None)"

section \<open>The resampler\<close>

text \<open>
  \<^verbatim>\<open>
  const findFrame = (() => {
    const capturedTimestamps = captured.map(({ timestamp }) => timestamp)
    capturedTimestamps.push(Infinity)
    return (timestamp: number) =>
      captured[Math.max(0, capturedTimestamps.findIndex((t) => t >= timestamp) - 1)]
  })()
  \<close>
\<close>

definition capturedTimestamps :: "CaptureData list \<Rightarrow> jsnumber list" where
  "capturedTimestamps captured = map (\<lambda>c. Num (of_int (timestamp c))) captured @ [Infinity]"

definition findFrame :: "CaptureData list \<Rightarrow> rat \<Rightarrow> CaptureData option" where
  "findFrame captured ts =
     js_index captured
       (max 0 (findIndex (\<lambda>t. js_ge t ts) (capturedTimestamps captured) - 1))"

text \<open>For the analysis of the lookup: the number of leading samples whose timestamp is
  strictly below \<open>T\<close>.\<close>

definition before :: "CaptureData list \<Rightarrow> rat \<Rightarrow> nat" where
  "before captured T = length (takeWhile (\<lambda>c. of_int (timestamp c) < T) captured)"

text \<open>\<^verbatim>\<open>const timestamp = firstTimestamp + (1000 * frame) / settings.fps\<close>.  With
  \<^verbatim>\<open>fps = 0\<close> the frame count below is 0 and the loop never computes a timestamp.\<close>

definition frame_timestamp :: "settings \<Rightarrow> int \<Rightarrow> nat \<Rightarrow> rat" where
  "frame_timestamp st firstTimestamp frame =
     of_int firstTimestamp + (1000 * of_nat frame) / of_nat (fps st)"

text \<open>\<^verbatim>\<open>const frames = Math.floor((durationMs * settings.fps) / 1000)\<close>\<close>

definition frames :: "settings \<Rightarrow> int \<Rightarrow> int" where
  "frames st durationMs = \<lfloor>(of_int durationMs * of_nat (fps st)) / (1000 :: rat)\<rfloor>"

text \<open>
  Exceptions: the \<^verbatim>\<open>TypeError\<close> of reading a property of \<^verbatim>\<open>undefined\<close>, the error of
  \<^verbatim>\<open>ffmpeg.FS('readFile', ...)\<close> on a file that does not exist, and whatever the browser, the
  renderer or ffmpeg throw.
\<close>

datatype error = TypeError | ENOENT | External string

text \<open>
  The values the frame loop computes, in order: for each \<^verbatim>\<open>frame\<close> with
  \<^verbatim>\<open>0 <= frame < frames\<close> the index, its nominal timestamp and the sample \<^verbatim>\<open>findFrame\<close>
  returns for it.  \<^verbatim>\<open>captured[0].timestamp\<close> throws a \<^verbatim>\<open>TypeError\<close> on an empty buffer,
  before \<^verbatim>\<open>frames\<close> is computed.
\<close>

definition resample ::
  "settings \<Rightarrow> CaptureData list \<Rightarrow> int \<Rightarrow> error + (nat \<times> rat \<times> CaptureData option) list" where
  "resample st captured lastTimestamp =
     (case captured of
        [] \<Rightarrow> Inl TypeError
      | c0 # _ \<Rightarrow>
          (let firstTimestamp = timestamp c0;
               durationMs = lastTimestamp - firstTimestamp
           in Inr (map (\<lambda>frame. (frame, frame_timestamp st firstTimestamp frame,
                                 findFrame captured (frame_timestamp st firstTimestamp frame)))
                       [0 ..< nat (frames st durationMs)])))"


section \<open>The frame materializer\<close>

text \<open>\<^verbatim>\<open>Number.prototype.toString\<close> on a non-negative integer: its decimal digits.\<close>

definition digit_char :: "nat \<Rightarrow> char" where
  "digit_char d = char_of (48 + d)"

fun toString :: "nat \<Rightarrow> string" where
  "toString n =
     (if n < 10 then [digit_char n] else toString (n div 10) @ [digit_char (n mod 10)])"

declare toString.simps [simp del]

text \<open>\<^verbatim>\<open>String.prototype.padStart\<close> with a one-character filler.\<close>

definition padStart :: "nat \<Rightarrow> char \<Rightarrow> string \<Rightarrow> string" where
  "padStart n c s = replicate (n - length s) c @ s"

text \<open>\<^verbatim>\<open>`frame-${frame.toString().padStart(10, '0')}.png`\<close>\<close>

definition outputLocalPath :: "nat \<Rightarrow> string" where
  "outputLocalPath frame = ''frame-'' @ padStart 10 (CHR ''0'') (toString frame) @ ''.png''"

text \<open>For the analysis of the file names: reading a string of decimal digits back as a
  number.\<close>

definition digit_value :: "char \<Rightarrow> nat" where
  "digit_value c = of_char c - 48"

definition parse_decimal :: "string \<Rightarrow> nat" where
  "parse_decimal s = foldl (\<lambda>a c. 10 * a + digit_value c) 0 s"

text \<open>The in-memory file system of one ffmpeg instance, and the output directory: file name
  to contents.\<close>

type_synonym memfs = "string \<rightharpoonup> string"

text \<open>
  The body of the frame loop.  \<^verbatim>\<open>const { data } = findFrame(timestamp)\<close> throws a
  \<^verbatim>\<open>TypeError\<close> when the lookup returned \<^verbatim>\<open>undefined\<close>; \<^verbatim>\<open>if (data)\<close> is false for
  \<^verbatim>\<open>null\<close> and for the empty string.  The first argument stands for
  \<^verbatim>\<open>Uint8Array.from(Buffer.from(data, 'base64'))\<close>.
\<close>

fun write_frames ::
  "(string \<Rightarrow> string) \<Rightarrow> (nat \<times> rat \<times> CaptureData option) list \<Rightarrow> memfs \<Rightarrow> error + memfs" where
  "write_frames dec [] fs = Inr fs"
| "write_frames dec ((frame, ts, sel) # rest) fs =
     (case sel of
        None \<Rightarrow> Inl TypeError
      | Some c \<Rightarrow>
          (case data c of
             None \<Rightarrow> write_frames dec rest fs
           | Some d \<Rightarrow>
               if d \<noteq> [] then write_frames dec rest (fs(outputLocalPath frame \<mapsto> dec d))
               else write_frames dec rest fs))"

section \<open>The transcoding calls\<close>

text \<open>\<^verbatim>\<open>const scale = `scale=${settings.width}:${settings.height}:flags=lanczos`\<close>\<close>

definition scale :: "settings \<Rightarrow> string" where
  "scale st = ''scale='' @ toString (width st) @ '':'' @ toString (height st) @ '':flags=lanczos''"

text \<open>The argument lists of the three \<^verbatim>\<open>ffmpeg.run\<close> calls, in source order.\<close>

definition assemble_args :: "settings \<Rightarrow> string list" where
  "assemble_args st =
     [''-framerate'', toString (fps st), ''-i'', ''frame-%010d.png'', ''-c:v'', ''copy'', ''raw.mkv'']"

definition palettegen_args :: "settings \<Rightarrow> string list" where
  "palettegen_args st = [''-i'', ''raw.mkv'', ''-vf'', scale st @ '',palettegen'', ''palette.png'']"

definition paletteuse_args :: "settings \<Rightarrow> string list" where
  "paletteuse_args st =
     [''-i'', ''raw.mkv'', ''-i'', ''palette.png'', ''-lavfi'',
      scale st @ '',fps='' @ toString (fps st) @ '' [x]; [x][1:v] paletteuse'',
      ''-y'', ''animation.gif'']"

text \<open>A filter chain separates its filters by commas; this reads the first filter of a
  chain.\<close>

definition first_filter :: "string \<Rightarrow> string" where
  "first_filter chain = takeWhile (\<lambda>c. c \<noteq> CHR '','') chain"

section \<open>The run driver\<close>

text \<open>
  What the script does not compute itself is taken as a parameter: \<open>capture\<close> is the outcome
  of rendering and recording one transition (the captured samples and the value of
  \<^verbatim>\<open>Date.now()\<close> read after the page is closed, or the exception thrown on the way),
  \<open>ffmpeg_load\<close> and \<open>ffmpeg_run\<close> are the calls of the ffmpeg instance, and \<open>from_base64\<close> is
  the decoding of a payload.
\<close>

record externals =
  capture :: "string \<Rightarrow> error + CaptureData list \<times> int"
  ffmpeg_load :: "error option"
  ffmpeg_run :: "string list \<Rightarrow> memfs \<Rightarrow> error + memfs"
  from_base64 :: "string \<Rightarrow> string"

text \<open>
  The body of \<^verbatim>\<open>for (const transition of transitions)\<close> from the end of the capture on.
  Nothing in it catches an exception: the two \<^verbatim>\<open>finally\<close> blocks only release the page and
  the ffmpeg instance.  The result is the content written to \<^verbatim>\<open>`${transition}.gif`\<close>.
\<close>

definition generate_gif :: "settings \<Rightarrow> externals \<Rightarrow> string \<Rightarrow> error + string" where
  "generate_gif st ext transition =
     (case capture ext transition of
        Inl e \<Rightarrow> Inl e
      | Inr (captured, lastTimestamp) \<Rightarrow>
     (case resample st captured lastTimestamp of
        Inl e \<Rightarrow> Inl e
      | Inr fr \<Rightarrow>
     (case ffmpeg_load ext of
        Some e \<Rightarrow> Inl e
      | None \<Rightarrow>
     (case write_frames (from_base64 ext) fr Map.empty of
        Inl e \<Rightarrow> Inl e
      | Inr fs0 \<Rightarrow>
     (case ffmpeg_run ext (assemble_args st) fs0 of
        Inl e \<Rightarrow> Inl e
      | Inr fs1 \<Rightarrow>
     (case ffmpeg_run ext (palettegen_args st) fs1 of
        Inl e \<Rightarrow> Inl e
      | Inr fs2 \<Rightarrow>
     (case ffmpeg_run ext (paletteuse_args st) fs2 of
        Inl e \<Rightarrow> Inl e
      | Inr fs3 \<Rightarrow>
     (case fs3 ''animation.gif'' of
        None \<Rightarrow> Inl ENOENT
      | Some gif \<Rightarrow> Inr gif))))))))"

text \<open>
  The loop over the transitions, inside \<^verbatim>\<open>try { ... } finally { rm(tmpDir) }\<close>: an exception
  of one iteration leaves the loop.  The result is the exception, if any, and the output
  directory.
\<close>

fun run_transitions ::
  "settings \<Rightarrow> externals \<Rightarrow> string list \<Rightarrow> memfs \<Rightarrow> error option \<times> memfs" where
  "run_transitions st ext [] out = (None, out)"
| "run_transitions st ext (transition # rest) out =
     (case generate_gif st ext transition of
        Inl e \<Rightarrow> (Some e, out)
      | Inr gif \<Rightarrow> run_transitions st ext rest (out(transition @ ''.gif'' \<mapsto> gif)))"

definition transitions :: "string list" where
  "transitions =
     [''clockwise'', ''counterclockwise'', ''cover'', ''coverflow'', ''cube'', ''cylinder'',
      ''diamond'', ''drop'', ''explode'', ''fade'', ''fade-out'', ''fall'', ''flip'', ''glow'',
      ''implode'', ''in-out'', ''iris-in'', ''iris-out'', ''melt'', ''overlap'', ''pivot'',
      ''pull'', ''push'', ''reveal'', ''rotate'', ''slide'', ''star'', ''swap'', ''swipe'',
      ''swoosh'', ''wipe'', ''wiper'', ''zoom'']"

section \<open>The lookup closure over a store of arrays\<close>

text \<open>
  \<^verbatim>\<open>captured.map(...)\<close> allocates a new array and \<^verbatim>\<open>push(Infinity)\<close> changes an array in
  place.  To see which array is changed, arrays live in a store and are named by their
  position in it.
\<close>

datatype jsarray = Samples "CaptureData list" | Numbers "jsnumber list"

type_synonym store = "jsarray list"

definition array_map_timestamp :: "store \<Rightarrow> nat \<Rightarrow> (store \<times> nat) option" where
  "array_map_timestamp h p =
     (if p < length h then
        (case h ! p of
           Samples cs \<Rightarrow> Some (h @ [Numbers (map (\<lambda>c. Num (of_int (timestamp c))) cs)], length h)
         | Numbers _ \<Rightarrow> None)
      else None)"

definition array_push :: "store \<Rightarrow> nat \<Rightarrow> jsnumber \<Rightarrow> store option" where
  "array_push h p v =
     (if p < length h then
        (case h ! p of
           Numbers ns \<Rightarrow> Some (h[p := Numbers (ns @ [v])])
         | Samples _ \<Rightarrow> None)
      else None)"

text \<open>The immediately invoked function that builds \<^verbatim>\<open>findFrame\<close>: the new store and the
  position of \<^verbatim>\<open>capturedTimestamps\<close>.\<close>

definition make_findFrame :: "store \<Rightarrow> nat \<Rightarrow> (store \<times> nat) option" where
  "make_findFrame h captured_ref =
     (case array_map_timestamp h captured_ref of
        None \<Rightarrow> None
      | Some (h1, ts_ref) \<Rightarrow>
          (case array_push h1 ts_ref Infinity of
             None \<Rightarrow> None
           | Some h2 \<Rightarrow> Some (h2, ts_ref)))"

text \<open>A call of the closure: it reads both arrays and writes nothing.\<close>

definition call_findFrame :: "store \<Rightarrow> nat \<Rightarrow> nat \<Rightarrow> rat \<Rightarrow> CaptureData option" where
  "call_findFrame h captured_ref ts_ref x =
     (if captured_ref < length h \<and> ts_ref < length h then
        (case (h ! captured_ref, h ! ts_ref) of
           (Samples cs, Numbers ns) \<Rightarrow>
             js_index cs (max 0 (findIndex (\<lambda>t. js_ge t x) ns - 1))
         | _ \<Rightarrow> None)
      else None)"

text \<open>Lines 164 to 184 of the loop body on the store: first timestamp, frame count, the
  closure, and the lookup of every frame.\<close>

definition resample_store ::
  "settings \<Rightarrow> store \<Rightarrow> nat \<Rightarrow> int
     \<Rightarrow> (error + (nat \<times> rat \<times> CaptureData option) list) \<times> store" where
  "resample_store st h captured_ref lastTimestamp =
     (if captured_ref < length h then
        (case h ! captured_ref of
           Samples [] \<Rightarrow> (Inl TypeError, h)
         | Samples (c0 # _) \<Rightarrow>
             (let firstTimestamp = timestamp c0;
                  durationMs = lastTimestamp - firstTimestamp
              in case make_findFrame h captured_ref of
                   None \<Rightarrow> (Inl TypeError, h)
                 | Some (h2, ts_ref) \<Rightarrow>
                     (Inr (map (\<lambda>frame.
                            (frame, frame_timestamp st firstTimestamp frame,
                             call_findFrame h2 captured_ref ts_ref
                               (frame_timestamp st firstTimestamp frame)))
                          [0 ..< nat (frames st durationMs)]), h2))
         | Numbers _ \<Rightarrow> (Inl TypeError, h))
      else (Inl TypeError, h))"

section \<open>Example sessions\<close>

text \<open>The session of the first end-to-end scenario: ten samples, 150 ms apart, from \<open>t = 0\<close>.\<close>

definition sample_at :: "int \<Rightarrow> CaptureData" where
  "sample_at t = \<lparr>data = Some ''png'', timestamp = t\<rparr>"

text \<open>A captured event without payload.\<close>

definition blank_at :: "int \<Rightarrow> CaptureData" where
  "blank_at t = \<lparr>data = None, timestamp = t\<rparr>"

definition scenario1 :: "CaptureData list" where
  "scenario1 = map (\<lambda>k. sample_at (150 * int k)) [0 ..< 10]"

text \<open>
  An example of the script's surroundings.  The recording of \<^verbatim>\<open>cover\<close> yields no sample;
  every other recording yields one sample, whose payload is the name of the transition, and
  ends 40 ms later.  The third ffmpeg call produces no \<^verbatim>\<open>animation.gif\<close> for \<^verbatim>\<open>cube\<close>; every
  other call writes its output file.
\<close>

definition example_externals :: externals where
  "example_externals =
     \<lparr>capture = (\<lambda>t. if t = ''cover'' then Inr ([], 0)
                     else Inr ([\<lparr>data = Some t, timestamp = 0\<rparr>], 40)),
      ffmpeg_load = None,
      ffmpeg_run = (\<lambda>args fs.
         if last args = ''animation.gif'' \<and> fs ''frame-0000000000.png'' = Some ''cube''
         then Inr fs else Inr (fs(last args \<mapsto> ''out''))),
      from_base64 = id\<rparr>"

section \<open>Properties\<close>

subsection \<open>The lookup\<close>

lemma findIndex_ge: "- 1 \<le> findIndex P xs"
  by (induction xs) (auto simp: Let_def)

lemma findIndex_takeWhile:
  "\<exists>x\<in>set xs. P x \<Longrightarrow> findIndex P xs = int (length (takeWhile (\<lambda>x. \<not> P x) xs))"
proof (induction xs)
  case Nil
  then show ?case by simp
next
  case (Cons x xs)
  show ?case
  proof (cases "P x")
    case True
    then show ?thesis by simp
  next
    case False
    with Cons.prems have "\<exists>y\<in>set xs. P y" by auto
    with Cons.IH have "findIndex P xs = int (length (takeWhile (\<lambda>x. \<not> P x) xs))" by blast
    with False show ?thesis by (simp add: Let_def)
  qed
qed

lemma takeWhile_sentinel: "\<not> Q s \<Longrightarrow> takeWhile Q (xs @ [s]) = takeWhile Q xs"
  by (induction xs) auto

lemma findIndex_capturedTimestamps:
  "findIndex (\<lambda>t. js_ge t T) (capturedTimestamps captured) = int (before captured T)"
proof -
  let ?f = "\<lambda>c. Num (of_int (timestamp c))"
  have ex: "\<exists>x\<in>set (capturedTimestamps captured). js_ge x T"
    by (auto simp: capturedTimestamps_def)
  have "takeWhile (\<lambda>x. \<not> js_ge x T) (map ?f captured @ [Infinity])
        = takeWhile (\<lambda>x. \<not> js_ge x T) (map ?f captured)"
    by (rule takeWhile_sentinel) simp
  then have "length (takeWhile (\<lambda>x. \<not> js_ge x T) (capturedTimestamps captured)) = before captured T"
    by (simp add: capturedTimestamps_def before_def takeWhile_map comp_def not_le)
  with findIndex_takeWhile[OF ex] show ?thesis by simp
qed

lemma before_le: "before captured T \<le> length captured"
  by (simp add: before_def length_takeWhile_le)

lemma findFrame_nth:
  assumes "captured \<noteq> []"
  shows "findFrame captured T = Some (captured ! (before captured T - 1))"
proof -
  have "max 0 (int (before captured T) - 1) = int (before captured T - 1)" by auto
  moreover have "before captured T - 1 < length captured"
    using assms before_le[of captured T] by (cases captured) auto
  ultimately show ?thesis
    by (simp add: findFrame_def findIndex_capturedTimestamps js_index_def)
qed

lemma before_prefix: "i < before captured T \<Longrightarrow> of_int (timestamp (captured ! i)) < T"
  unfolding before_def
  by (metis (mono_tags, lifting) nth_mem set_takeWhileD takeWhile_nth)

lemma before_stop:
  "before captured T < length captured \<Longrightarrow> T \<le> of_int (timestamp (captured ! before captured T))"
  unfolding before_def using nth_length_takeWhile[of "\<lambda>c. of_int (timestamp c) < T" captured]
  by (simp add: not_less)

subsection \<open>Frame count and nominal timestamps\<close>

lemma frames_div: "frames st d = (d * int (fps st)) div 1000"
proof -
  have "(of_int d * of_nat (fps st)) / (1000 :: rat) = of_int (d * int (fps st)) / of_int 1000"
    by simp
  then show ?thesis
    unfolding frames_def by (simp only: floor_divide_of_int_eq)
qed

subsection \<open>Scenario 1\<close>

lemma frames_scenario1: "frames default_settings 1500 = 37"
  by (simp add: frames_div default_settings_def)

lemma findFrame_scenario1_first: "findFrame scenario1 0 = Some (sample_at 0)"
  by code_simp

lemma findFrame_scenario1_last: "findFrame scenario1 1440 = Some (sample_at 1350)"
  by code_simp

lemma frame_timestamp_scenario1:
  "frame_timestamp default_settings 0 0 = 0"
  "frame_timestamp default_settings 0 36 = 1440"
  by (simp_all add: frame_timestamp_def default_settings_def)

lemma scenario1_Cons: "scenario1 = sample_at 0 # tl scenario1"
  by code_simp

text \<open>
  C3.  Scenario 1: a session of 1500 ms with ten samples 150 ms apart from \<open>t = 0\<close>, resampled
  at 25 frames per second, has exactly 37 frames; frame 0 is mapped to the sample at \<open>t = 0\<close>
  and frame 36, whose nominal timestamp is 1440, to the sample at \<open>t = 1350\<close>.
\<close>

theorem scenario1_resample:
  "(case resample default_settings scenario1 1500 of
      Inl e \<Rightarrow> False
    | Inr fr \<Rightarrow> length fr = 37
        \<and> fr ! 0 = (0, 0, Some (sample_at 0))
        \<and> fr ! 36 = (36, 1440, Some (sample_at 1350)))"
  apply (subst scenario1_Cons)
  apply (simp add: resample_def sample_at_def frames_scenario1 del: upt_Suc)
  apply (simp add: frame_timestamp_scenario1 findFrame_scenario1_first findFrame_scenario1_last
      sample_at_def[symmetric] scenario1_Cons[symmetric] del: upt_Suc)
  done

subsection \<open>The frame loop\<close>

lemma resample_Inr:
  assumes "captured \<noteq> []"
  shows "resample st captured lastTimestamp =
     Inr (map (\<lambda>frame. (frame, frame_timestamp st (timestamp (hd captured)) frame,
                         findFrame captured (frame_timestamp st (timestamp (hd captured)) frame)))
              [0 ..< nat (frames st (lastTimestamp - timestamp (hd captured)))])"
  using assms by (cases captured) (simp_all add: resample_def Let_def)

lemma frame_timestamp_ge: "of_int first \<le> frame_timestamp st first frame"
  by (simp add: frame_timestamp_def)

lemma frame_timestamp_strict_mono:
  "0 < fps st \<Longrightarrow> i < j \<Longrightarrow> frame_timestamp st first i < frame_timestamp st first j"
  by (simp add: frame_timestamp_def divide_strict_right_mono)

lemma frame_timestamp_0: "frame_timestamp st first 0 = of_int first"
  by (simp add: frame_timestamp_def)

lemma findFrame_le:
  assumes "captured \<noteq> []" and "of_int (timestamp (hd captured)) \<le> T"
  shows "of_int (timestamp (captured ! (before captured T - 1))) \<le> T"
proof (cases "before captured T")
  case 0
  with assms show ?thesis by (simp add: hd_conv_nth)
next
  case (Suc k)
  then have "of_int (timestamp (captured ! k)) < T"
    using before_prefix[of k captured T] by simp
  with Suc show ?thesis by simp
qed

lemma findFrame_strict:
  assumes "captured \<noteq> []" and "of_int (timestamp (hd captured)) < T"
  shows "of_int (timestamp (captured ! (before captured T - 1))) < T"
proof (cases "before captured T")
  case 0
  with assms show ?thesis by (simp add: hd_conv_nth)
next
  case (Suc k)
  then have "of_int (timestamp (captured ! k)) < T"
    using before_prefix[of k captured T] by simp
  with Suc show ?thesis by simp
qed

lemma findFrame_no_sample_between:
  assumes ne: "captured \<noteq> []" and srt: "sorted (map timestamp captured)"
    and mem: "s' \<in> set captured"
    and gt: "timestamp (captured ! (before captured T - 1)) < timestamp s'"
  shows "T \<le> of_int (timestamp s')"
proof -
  let ?k = "before captured T"
  from mem obtain i where i: "i < length captured" "captured ! i = s'"
    by (auto simp: in_set_conv_nth)
  have mono: "\<And>a b. a \<le> b \<Longrightarrow> b < length captured \<Longrightarrow> timestamp (captured ! a) \<le> timestamp (captured ! b)"
    using srt by (auto simp: sorted_iff_nth_mono dest!: spec)
  have "?k \<le> i"
  proof (rule ccontr)
    assume "\<not> ?k \<le> i"
    then have "i \<le> ?k - 1" by simp
    moreover have "?k - 1 < length captured"
      using ne before_le[of captured T] by (cases captured) auto
    ultimately have "timestamp (captured ! i) \<le> timestamp (captured ! (?k - 1))"
      by (rule mono)
    with gt i show False by simp
  qed
  with i have klt: "?k < length captured" by simp
  then have "T \<le> of_int (timestamp (captured ! ?k))" by (rule before_stop)
  also have "timestamp (captured ! ?k) \<le> timestamp (captured ! i)"
    using \<open>?k \<le> i\<close> i(1) by (rule mono)
  then have "(of_int (timestamp (captured ! ?k)) :: rat) \<le> of_int (timestamp (captured ! i))"
    by simp
  finally show ?thesis using i by simp
qed

subsection \<open>Nearest preceding sample, frame count, nominal timestamps\<close>

lemma resample_two: "resample default_settings [sample_at 0, sample_at 40] 100 =
         Inr [(0, 0, Some (sample_at 0)), (1, 40, Some (sample_at 0))]"
  by code_simp

text \<open>
  Against C1 as stated (closed lower bound).  Two samples at \<open>t = 0\<close> and \<open>t = 40\<close>, session end
  at 100: frame 1 has the nominal timestamp 40, the sample at 40 lies in the interval
  \<open>(0, 40]\<close> and has exactly the nominal timestamp, and the lookup selects the sample at 0.
\<close>

theorem resample_closed_bound_counterexample:
  "resample default_settings [sample_at 0, sample_at 40] 100 =
         Inr [(0, 0, Some (sample_at 0)), (1, 40, Some (sample_at 0))]
   \<and> sample_at 40 \<in> set [sample_at 0, sample_at 40]
   \<and> timestamp (sample_at 0) < timestamp (sample_at 40)
   \<and> (of_int (timestamp (sample_at 40)) :: rat) = 40"
  by (simp add: resample_two) (simp add: sample_at_def)

text \<open>
  C1, as the code has it.  The lookup searches the first timestamp \<open>\<ge> T\<close> and steps one back,
  clamped at index 0.  For a non-empty buffer with non-decreasing timestamps every frame of
  the loop selects a sample of the buffer with timestamp \<open>\<le> T\<close>; no sample has a timestamp
  strictly between the selected one and \<open>T\<close> (the interval is open at \<open>T\<close>); frame 0 selects
  the first sample, whose timestamp is \<open>T\<close>; every later frame selects a sample strictly
  before \<open>T\<close>, so a sample at exactly \<open>T\<close> is not selected there.
\<close>

theorem resample_nearest_strictly_preceding:
  assumes ne: "captured \<noteq> []"
    and srt: "sorted (map timestamp captured)"
    and fps: "0 < fps st"
    and res: "resample st captured lastTimestamp = Inr fr"
    and mem: "(frame, T, sel) \<in> set fr"
  shows "\<exists>s. sel = Some s \<and> s \<in> set captured
           \<and> of_int (timestamp s) \<le> T
           \<and> (\<forall>s'\<in>set captured. \<not> (timestamp s < timestamp s' \<and> of_int (timestamp s') < T))
           \<and> (if frame = 0 then s = hd captured \<and> of_int (timestamp s) = T
               else of_int (timestamp s) < T)"
proof -
  let ?first = "timestamp (hd captured)"
  let ?s = "captured ! (before captured T - 1)"
  from res mem ne have T: "T = frame_timestamp st ?first frame"
    and sel: "sel = findFrame captured T"
    by (auto simp: resample_Inr)
  have idx: "before captured T - 1 < length captured"
    using ne before_le[of captured T] by (cases captured) auto
  have ge: "of_int ?first \<le> T" unfolding T by (rule frame_timestamp_ge)
  have 1: "sel = Some ?s" unfolding sel using ne by (rule findFrame_nth)
  have 2: "?s \<in> set captured" using idx by simp
  have 3: "of_int (timestamp ?s) \<le> T" using ne ge by (rule findFrame_le)
  have 4: "\<forall>s'\<in>set captured. \<not> (timestamp ?s < timestamp s' \<and> of_int (timestamp s') < T)"
  proof
    fix s' assume "s' \<in> set captured"
    then have imp: "timestamp ?s < timestamp s' \<Longrightarrow> T \<le> of_int (timestamp s')"
      by (rule findFrame_no_sample_between[OF ne srt])
    show "\<not> (timestamp ?s < timestamp s' \<and> of_int (timestamp s') < T)"
    proof
      assume both: "timestamp ?s < timestamp s' \<and> of_int (timestamp s') < T"
      then have "T \<le> of_int (timestamp s')" using imp by blast
      with both show False by simp
    qed
  qed
  have 5: "if frame = 0 then ?s = hd captured \<and> of_int (timestamp ?s) = T
           else of_int (timestamp ?s) < T"
  proof (cases "frame = 0")
    case True
    then have T0: "T = of_int ?first" unfolding T by (simp add: frame_timestamp_0)
    have "before captured T = 0"
      using ne unfolding before_def T0 by (cases captured) auto
    with True T0 ne show ?thesis by (simp add: hd_conv_nth)
  next
    case False
    then have "frame_timestamp st ?first 0 < frame_timestamp st ?first frame"
      using fps by (intro frame_timestamp_strict_mono) auto
    then have "of_int ?first < T" unfolding T by (simp add: frame_timestamp_0)
    with ne have "of_int (timestamp ?s) < T" by (rule findFrame_strict)
    with False show ?thesis by simp
  qed
  from 1 2 3 4 5 show ?thesis by blast
qed

text \<open>
  The theorem at frame 1 of the two-sample session.
\<close>

theorem resample_nearest_strictly_preceding_witness:
  "[sample_at 0, sample_at 40] \<noteq> []
   \<and> sorted (map timestamp [sample_at 0, sample_at 40])
   \<and> 0 < fps default_settings
   \<and> resample default_settings [sample_at 0, sample_at 40] 100 =
         Inr [(0, 0, Some (sample_at 0)), (1, 40, Some (sample_at 0))]
   \<and> (1, 40, Some (sample_at 0)) \<in> set [(0, 0, Some (sample_at 0)), (1 :: nat, 40 :: rat, Some (sample_at 0))]
   \<and> (\<exists>s. Some (sample_at 0) = Some s \<and> s \<in> set [sample_at 0, sample_at 40]
           \<and> of_int (timestamp s) \<le> (40 :: rat)
           \<and> (\<forall>s'\<in>set [sample_at 0, sample_at 40].
                 \<not> (timestamp s < timestamp s' \<and> of_int (timestamp s') < (40 :: rat)))
           \<and> (if (1 :: nat) = 0 then s = hd [sample_at 0, sample_at 40] \<and> of_int (timestamp s) = (40 :: rat)
               else of_int (timestamp s) < (40 :: rat)))"
proof -
  have a: "[sample_at 0, sample_at 40] \<noteq> []" by simp
  have b: "sorted (map timestamp [sample_at 0, sample_at 40])" by (simp add: sample_at_def)
  have c: "0 < fps default_settings" by (simp add: default_settings_def)
  have d: "resample default_settings [sample_at 0, sample_at 40] 100 =
         Inr [(0, 0, Some (sample_at 0)), (1, 40, Some (sample_at 0))]" by (rule resample_two)
  have e: "(1, 40, Some (sample_at 0)) \<in> set [(0, 0, Some (sample_at 0)), (1 :: nat, 40 :: rat, Some (sample_at 0))]"
    by simp
  from resample_nearest_strictly_preceding[OF a b c d e] a b c d e show ?thesis
    by (intro conjI) assumption+
qed

text \<open>
  C2.  For a non-empty session whose end is not before its first sample, the frame loop runs
  for exactly \<open>\<lfloor>durationMs * fps / 1000\<rfloor>\<close> indices, and they are \<open>0, 1, 2, ...\<close> in order.
\<close>

theorem resample_length:
  assumes "captured \<noteq> []" and "timestamp (hd captured) \<le> lastTimestamp"
  shows "\<exists>fr. resample st captured lastTimestamp = Inr fr
           \<and> int (length fr) =
               \<lfloor>(of_int (lastTimestamp - timestamp (hd captured)) * of_nat (fps st)) / (1000 :: rat)\<rfloor>
           \<and> map fst fr = [0 ..< length fr]"
proof -
  let ?d = "lastTimestamp - timestamp (hd captured)"
  have "0 \<le> ?d * int (fps st)" using assms(2) by simp
  then have "0 \<le> frames st ?d" unfolding frames_div by (simp add: pos_imp_zdiv_nonneg_iff)
  then have "int (nat (frames st ?d)) = frames st ?d" by simp
  then show ?thesis
    using assms(1) by (simp add: resample_Inr frames_def comp_def map_idI)
qed

text \<open>
  The theorem at scenario 1.
\<close>

theorem resample_length_witness:
  "scenario1 \<noteq> [] \<and> timestamp (hd scenario1) \<le> 1500
   \<and> (\<exists>fr. resample default_settings scenario1 1500 = Inr fr
           \<and> int (length fr) =
               \<lfloor>(of_int (1500 - timestamp (hd scenario1)) * of_nat (fps default_settings)) / (1000 :: rat)\<rfloor>
           \<and> map fst fr = [0 ..< length fr])"
proof -
  have a: "scenario1 \<noteq> []" by (subst scenario1_Cons) simp
  have b: "timestamp (hd scenario1) \<le> 1500" by (subst scenario1_Cons) (simp add: sample_at_def)
  from resample_length[OF a b, of default_settings] a b show ?thesis by (intro conjI) assumption+
qed

text \<open>
  C8.  With \<open>fps > 0\<close>, frame \<open>i + 1\<close> has a strictly larger nominal timestamp than frame
  \<open>i\<close>, for all \<open>i\<close> with both indices in range; the position of a frame is its index.
\<close>

theorem nominal_timestamp_strictly_increasing:
  assumes "0 < fps st" and "resample st captured lastTimestamp = Inr fr" and "Suc i < length fr"
  shows "fst (fr ! i) = i \<and> fst (fr ! Suc i) = Suc i
         \<and> fst (snd (fr ! i)) < fst (snd (fr ! Suc i))"
proof -
  from assms(2) have ne: "captured \<noteq> []" by (auto simp: resample_def)
  from assms(2,3) show ?thesis
    unfolding resample_Inr[OF ne] using frame_timestamp_strict_mono[OF assms(1), of i "Suc i"]
    by auto
qed

text \<open>
  The theorem at the two frames of the two-sample session.
\<close>

theorem nominal_timestamp_strictly_increasing_witness:
  "0 < fps default_settings
   \<and> resample default_settings [sample_at 0, sample_at 40] 100 =
         Inr [(0, 0, Some (sample_at 0)), (1, 40, Some (sample_at 0))]
   \<and> Suc 0 < length [(0 :: nat, 0 :: rat, Some (sample_at 0)), (1, 40, Some (sample_at 0))]
   \<and> fst ([(0 :: nat, 0 :: rat, Some (sample_at 0)), (1, 40, Some (sample_at 0))] ! 0) = 0
   \<and> fst ([(0 :: nat, 0 :: rat, Some (sample_at 0)), (1, 40, Some (sample_at 0))] ! Suc 0) = Suc 0
   \<and> fst (snd ([(0 :: nat, 0 :: rat, Some (sample_at 0)), (1, 40, Some (sample_at 0))] ! 0))
       < fst (snd ([(0 :: nat, 0 :: rat, Some (sample_at 0)), (1, 40, Some (sample_at 0))] ! Suc 0))"
proof -
  have a: "0 < fps default_settings" by (simp add: default_settings_def)
  have b: "resample default_settings [sample_at 0, sample_at 40] 100 =
         Inr [(0, 0, Some (sample_at 0)), (1, 40, Some (sample_at 0))]" by (rule resample_two)
  have c: "Suc 0 < length [(0 :: nat, 0 :: rat, Some (sample_at 0)), (1, 40, Some (sample_at 0))]"
    by simp
  from nominal_timestamp_strictly_increasing[OF a b c] a b c show ?thesis
    by blast
qed

subsection \<open>File names and the materializer\<close>

lemma digit_value_digit_char: "d < 10 \<Longrightarrow> digit_value (digit_char d) = d"
  by (simp add: digit_value_def digit_char_def)

lemma parse_decimal_snoc: "parse_decimal (s @ [c]) = 10 * parse_decimal s + digit_value c"
  by (simp add: parse_decimal_def)

lemma parse_decimal_toString: "parse_decimal (toString n) = n"
proof (induction n rule: toString.induct)
  case (1 n)
  show ?case
  proof (cases "n < 10")
    case True
    then show ?thesis
      by (subst toString.simps) (simp add: parse_decimal_def digit_value_digit_char)
  next
    case False
    with 1 have "parse_decimal (toString (n div 10)) = n div 10" by simp
    with False show ?thesis
      by (subst toString.simps) (simp add: parse_decimal_snoc digit_value_digit_char)
  qed
qed

lemma foldl_zeros:
  "foldl (\<lambda>a c. 10 * a + digit_value c) 0 (replicate k (CHR ''0'')) = 0"
  by (induction k) (simp_all add: digit_value_def)

lemma parse_decimal_padStart: "parse_decimal (padStart n (CHR ''0'') s) = parse_decimal s"
  by (simp add: parse_decimal_def padStart_def foldl_zeros)

lemma outputLocalPath_inj: "outputLocalPath i = outputLocalPath j \<Longrightarrow> i = j"
proof -
  assume "outputLocalPath i = outputLocalPath j"
  then have "padStart 10 (CHR ''0'') (toString i) = padStart 10 (CHR ''0'') (toString j)"
    by (simp add: outputLocalPath_def)
  then have "parse_decimal (padStart 10 (CHR ''0'') (toString i))
           = parse_decimal (padStart 10 (CHR ''0'') (toString j))" by simp
  then show "i = j" by (simp only: parse_decimal_padStart parse_decimal_toString)
qed

lemma outputLocalPath_0: "outputLocalPath 0 = ''frame-0000000000.png''"
  by code_simp

lemma write_frames_untouched:
  "write_frames dec fr fs = Inr fs' \<Longrightarrow> \<forall>x\<in>set fr. outputLocalPath (fst x) \<noteq> p \<Longrightarrow> fs' p = fs p"
proof (induction fr arbitrary: fs)
  case Nil
  then show ?case by simp
next
  case (Cons x fr)
  obtain i T sel where x: "x = (i, T, sel)" by (cases x) auto
  from Cons.prems(2) have ne: "outputLocalPath i \<noteq> p" and rest: "\<forall>x\<in>set fr. outputLocalPath (fst x) \<noteq> p"
    by (auto simp: x)
  from Cons.prems(1) obtain fs1 where step: "write_frames dec fr fs1 = Inr fs'" and fs1: "fs1 p = fs p"
    using ne by (auto simp: x split: option.splits if_splits)
  from Cons.IH[OF step rest] fs1 show ?case by simp
qed

lemma write_frames_written:
  assumes "write_frames dec fr fs = Inr fs'" and "distinct (map fst fr)"
    and "(i, T, Some s) \<in> set fr"
  shows "fs' (outputLocalPath i) =
           (case data s of
              None \<Rightarrow> fs (outputLocalPath i)
            | Some d \<Rightarrow> if d \<noteq> [] then Some (dec d) else fs (outputLocalPath i))"
  using assms
proof (induction fr arbitrary: fs)
  case Nil
  then show ?case by simp
next
  case (Cons x fr)
  obtain j U sel where x: "x = (j, U, sel)" by (cases x) auto
  show ?case
  proof (cases "(i, T, Some s) = x")
    case True
    then have eq: "j = i" "sel = Some s" by (auto simp: x)
    from Cons.prems(2) have "\<forall>y\<in>set fr. fst y \<noteq> i" by (auto simp: x eq)
    then have away: "\<forall>y\<in>set fr. outputLocalPath (fst y) \<noteq> outputLocalPath i"
      using outputLocalPath_inj by blast
    from Cons.prems(1) obtain fs1 where step: "write_frames dec fr fs1 = Inr fs'"
      and fs1: "fs1 (outputLocalPath i) =
           (case data s of
              None \<Rightarrow> fs (outputLocalPath i)
            | Some d \<Rightarrow> if d \<noteq> [] then Some (dec d) else fs (outputLocalPath i))"
      by (auto simp: x eq split: option.splits if_splits)
    from write_frames_untouched[OF step away] fs1 show ?thesis by simp
  next
    case False
    with Cons.prems(3) have mem: "(i, T, Some s) \<in> set fr" by auto
    then have "i \<in> fst ` set fr" by force
    with Cons.prems(2) have "j \<noteq> i" by (auto simp: x)
    then have ne: "outputLocalPath j \<noteq> outputLocalPath i" using outputLocalPath_inj by blast
    from Cons.prems(1) obtain fs1 where step: "write_frames dec fr fs1 = Inr fs'"
      and fs1: "fs1 (outputLocalPath i) = fs (outputLocalPath i)"
      using ne by (auto simp: x split: option.splits if_splits)
    from Cons.prems(2) have d: "distinct (map fst fr)" by simp
    from Cons.IH[OF step d mem] fs1 show ?thesis by (simp split: option.splits)
  qed
qed

lemma write_frames_total:
  "\<forall>x\<in>set fr. snd (snd x) \<noteq> None \<Longrightarrow> \<exists>fs'. write_frames dec fr fs = Inr fs'"
proof (induction fr arbitrary: fs)
  case Nil
  then show ?case by simp
next
  case (Cons x fr)
  obtain j U sel where x: "x = (j, U, sel)" by (cases x) auto
  from Cons.prems obtain s where s: "sel = Some s" by (auto simp: x)
  from Cons.prems have "\<forall>x\<in>set fr. snd (snd x) \<noteq> None" by simp
  then have "\<And>fs. \<exists>fs'. write_frames dec fr fs = Inr fs'" by (rule Cons.IH)
  then show ?case by (simp add: x s split: option.splits)
qed

subsection \<open>Totality of the lookup\<close>

lemma findFrame_mem:
  assumes "captured \<noteq> []"
  shows "\<exists>s\<in>set captured. findFrame captured T = Some s"
proof -
  have "before captured T - 1 < length captured"
    using assms before_le[of captured T] by (cases captured) auto
  then have "captured ! (before captured T - 1) \<in> set captured" by simp
  with findFrame_nth[OF assms, of T] show ?thesis by blast
qed

lemma frame_loop_materialized:
  assumes ne: "captured \<noteq> []"
  shows "\<exists>fr fs. resample st captured lastTimestamp = Inr fr
           \<and> length fr = nat (frames st (lastTimestamp - timestamp (hd captured)))
           \<and> write_frames dec fr Map.empty = Inr fs
           \<and> (\<forall>i<length fr. \<exists>s\<in>set captured.
                 fr ! i = (i, frame_timestamp st (timestamp (hd captured)) i, Some s)
               \<and> fs (outputLocalPath i) =
                   (case data s of
                      None \<Rightarrow> None
                    | Some d \<Rightarrow> if d \<noteq> [] then Some (dec d) else None))"
proof -
  let ?first = "timestamp (hd captured)"
  let ?n = "nat (frames st (lastTimestamp - ?first))"
  let ?fr = "map (\<lambda>frame. (frame, frame_timestamp st ?first frame,
                         findFrame captured (frame_timestamp st ?first frame))) [0 ..< ?n]"
  have res: "resample st captured lastTimestamp = Inr ?fr" using ne by (rule resample_Inr)
  have len: "length ?fr = ?n" by simp
  have some: "\<forall>x\<in>set ?fr. snd (snd x) \<noteq> None"
    by (auto simp: findFrame_nth[OF ne])
  obtain fs where fs: "write_frames dec ?fr Map.empty = Inr fs"
    using write_frames_total[OF some] by (rule exE)
  have dist: "distinct (map fst ?fr)" by (simp add: comp_def)
  have each: "\<forall>i<length ?fr. \<exists>s\<in>set captured.
           ?fr ! i = (i, frame_timestamp st ?first i, Some s)
         \<and> fs (outputLocalPath i) =
             (case data s of None \<Rightarrow> None | Some d \<Rightarrow> if d \<noteq> [] then Some (dec d) else None)"
  proof (intro allI impI)
    fix i assume i: "i < length ?fr"
    from findFrame_mem[OF ne, of "frame_timestamp st ?first i"]
    obtain s where s: "s \<in> set captured" "findFrame captured (frame_timestamp st ?first i) = Some s"
      by (rule bexE)
    from i have nth: "?fr ! i = (i, frame_timestamp st ?first i, Some s)" by (simp add: s)
    from i have "?fr ! i \<in> set ?fr" by (rule nth_mem)
    then have "(i, frame_timestamp st ?first i, Some s) \<in> set ?fr" by (simp only: nth)
    from write_frames_written[OF fs dist this]
    have "fs (outputLocalPath i) =
        (case data s of None \<Rightarrow> None | Some d \<Rightarrow> if d \<noteq> [] then Some (dec d) else None)"
      by simp
    with nth have "?fr ! i = (i, frame_timestamp st ?first i, Some s)
         \<and> fs (outputLocalPath i) =
             (case data s of None \<Rightarrow> None | Some d \<Rightarrow> if d \<noteq> [] then Some (dec d) else None)"
      by (rule conjI)
    with s(1) show "\<exists>s\<in>set captured.
           ?fr ! i = (i, frame_timestamp st ?first i, Some s)
         \<and> fs (outputLocalPath i) =
             (case data s of None \<Rightarrow> None | Some d \<Rightarrow> if d \<noteq> [] then Some (dec d) else None)"
      by (rule bexI[rotated])
  qed
  show ?thesis using res len fs each by (intro exI conjI)
qed

lemma resample_skip:
  "resample default_settings [sample_at 0, blank_at 20] 100 =
     Inr [(0, 0, Some (sample_at 0)), (1, 40, Some (blank_at 20))]"
  by code_simp

lemma frames_skip:
  "nat (frames default_settings (100 - timestamp (hd [sample_at 0, blank_at 20]))) = 2"
  by (simp add: frames_div default_settings_def sample_at_def)

text \<open>
  C10.  For a non-empty buffer the lookup returns a sample of the buffer for every timestamp,
  never \<^verbatim>\<open>undefined\<close>.  The frame loop runs for \<^verbatim>\<open>frames\<close> indices and maps every one of
  them to a sample, the materializer runs through without an exception, and the file of
  index \<open>i\<close> is missing exactly when the payload of the selected sample is \<^verbatim>\<open>null\<close> or
  empty, the two values for which \<^verbatim>\<open>if (data)\<close> is false.
\<close>

theorem findFrame_total:
  assumes ne: "captured \<noteq> []"
  shows "(\<forall>T. \<exists>s\<in>set captured. findFrame captured T = Some s)
       \<and> (\<exists>fr fs. resample st captured lastTimestamp = Inr fr
             \<and> length fr = nat (frames st (lastTimestamp - timestamp (hd captured)))
             \<and> write_frames dec fr Map.empty = Inr fs
             \<and> (\<forall>i<length fr. \<exists>s\<in>set captured.
                   fr ! i = (i, frame_timestamp st (timestamp (hd captured)) i, Some s)
                 \<and> fs (outputLocalPath i) =
                     (case data s of
                        None \<Rightarrow> None
                      | Some d \<Rightarrow> if d \<noteq> [] then Some (dec d) else None)))"
proof
  show "\<forall>T. \<exists>s\<in>set captured. findFrame captured T = Some s"
    using findFrame_mem[OF ne] by (rule allI)
next
  from ne show "\<exists>fr fs. resample st captured lastTimestamp = Inr fr
             \<and> length fr = nat (frames st (lastTimestamp - timestamp (hd captured)))
             \<and> write_frames dec fr Map.empty = Inr fs
             \<and> (\<forall>i<length fr. \<exists>s\<in>set captured.
                   fr ! i = (i, frame_timestamp st (timestamp (hd captured)) i, Some s)
                 \<and> fs (outputLocalPath i) =
                     (case data s of
                        None \<Rightarrow> None
                      | Some d \<Rightarrow> if d \<noteq> [] then Some (dec d) else None))"
    by (rule frame_loop_materialized)
qed

text \<open>
  The theorem at a session of 100 ms with a sample at \<open>t = 0\<close> and a sample without payload
  at \<open>t = 20\<close>: two frames, the image of frame 0 is written and frame 1 is skipped.
\<close>

theorem findFrame_total_witness:
  "[sample_at 0, blank_at 20] \<noteq> []
   \<and> (\<exists>s\<in>set [sample_at 0, blank_at 20]. findFrame [sample_at 0, blank_at 20] 40 = Some s)
   \<and> resample default_settings [sample_at 0, blank_at 20] 100 =
        Inr [(0, 0, Some (sample_at 0)), (1, 40, Some (blank_at 20))]
   \<and> length [(0 :: nat, 0 :: rat, Some (sample_at 0)), (1, 40, Some (blank_at 20))] =
        nat (frames default_settings (100 - timestamp (hd [sample_at 0, blank_at 20])))
   \<and> nat (frames default_settings (100 - timestamp (hd [sample_at 0, blank_at 20]))) = 2
   \<and> (\<exists>fs. write_frames id [(0, 0, Some (sample_at 0)), (1, 40, Some (blank_at 20))] Map.empty
              = Inr fs
          \<and> fs (outputLocalPath 0) = Some ''png''
          \<and> fs (outputLocalPath 1) = None)"
proof -
  let ?cap = "[sample_at 0, blank_at 20]"
  let ?two = "[(0 :: nat, 0 :: rat, Some (sample_at 0)), (1, 40, Some (blank_at 20))]"
  have a: "?cap \<noteq> []" by simp
  note t = findFrame_total[OF a, of default_settings 100 id]
  from t have b: "\<exists>s\<in>set ?cap. findFrame ?cap 40 = Some s" by blast
  from t obtain fr fs where fr: "resample default_settings ?cap 100 = Inr fr"
    and len: "length fr = nat (frames default_settings (100 - timestamp (hd ?cap)))"
    and fs: "write_frames id fr Map.empty = Inr fs"
    and each: "\<forall>i<length fr. \<exists>s\<in>set ?cap.
                   fr ! i = (i, frame_timestamp default_settings (timestamp (hd ?cap)) i, Some s)
                 \<and> fs (outputLocalPath i) =
                     (case data s of
                        None \<Rightarrow> None
                      | Some d \<Rightarrow> if d \<noteq> [] then Some (id d) else None)"
    by blast
  from fr have two: "fr = ?two" by (simp add: resample_skip)
  have l0: "0 < length fr" and l1: "1 < length fr" unfolding two by simp_all
  from each l0 obtain s0 where s0: "fr ! 0 = (0, frame_timestamp default_settings (timestamp (hd ?cap)) 0, Some s0)"
      "fs (outputLocalPath 0) =
         (case data s0 of None \<Rightarrow> None | Some d \<Rightarrow> if d \<noteq> [] then Some (id d) else None)"
    by blast
  from s0(1) have "s0 = sample_at 0" unfolding two by simp
  with s0(2) have f0: "fs (outputLocalPath 0) = Some ''png''" by (simp add: sample_at_def)
  from each l1 obtain s1 where s1: "fr ! 1 = (1, frame_timestamp default_settings (timestamp (hd ?cap)) 1, Some s1)"
      "fs (outputLocalPath 1) =
         (case data s1 of None \<Rightarrow> None | Some d \<Rightarrow> if d \<noteq> [] then Some (id d) else None)"
    by blast
  from s1(1) have "s1 = blank_at 20" unfolding two by simp
  with s1(2) have f1: "fs (outputLocalPath 1) = None" by (simp add: blank_at_def)
  from fs f0 f1 have c: "\<exists>fs. write_frames id ?two Map.empty = Inr fs
          \<and> fs (outputLocalPath 0) = Some ''png'' \<and> fs (outputLocalPath 1) = None"
    unfolding two by blast
  from len have d: "length ?two = nat (frames default_settings (100 - timestamp (hd ?cap)))"
    unfolding two .
  from a b resample_skip d frames_skip c show ?thesis by (intro conjI)
qed

subsection \<open>Frames before the first sample\<close>




subsection \<open>The scale filter\<close>

lemma digit_char_not_comma: "d < 10 \<Longrightarrow> digit_char d \<noteq> CHR '',''"
proof
  assume "d < 10" and "digit_char d = CHR '',''"
  then have "(of_char (digit_char d) :: nat) = of_char (CHR '','')" by simp
  with \<open>d < 10\<close> show False by (simp add: digit_char_def)
qed

lemma toString_no_comma: "CHR '','' \<notin> set (toString n)"
proof (induction n rule: toString.induct)
  case (1 n)
  show ?case
  proof (cases "n < 10")
    case True
    then show ?thesis using digit_char_not_comma[of n]
      by (subst toString.simps) auto
  next
    case False
    with 1 have "CHR '','' \<notin> set (toString (n div 10))" by simp
    with False show ?thesis using digit_char_not_comma[of "n mod 10"]
      by (subst toString.simps) auto
  qed
qed

lemma scale_no_comma: "\<forall>c\<in>set (scale st). c \<noteq> CHR '',''"
  using toString_no_comma[of "width st"] toString_no_comma[of "height st"]
  by (auto simp: scale_def)

lemma first_filter_scale: "first_filter (scale st @ CHR '','' # rest) = scale st"
  unfolding first_filter_def using scale_no_comma[of st]
  by simp

text \<open>
  C9.  The filter chains of the palette generation and of the paletted encode both start
  with the same filter, the string \<^verbatim>\<open>scale\<close> built once from the width and the height.
\<close>

theorem scale_byte_identical:
  "first_filter (palettegen_args st ! 3) = scale st
   \<and> first_filter (paletteuse_args st ! 5) = scale st
   \<and> palettegen_args st ! 3 = scale st @ '',palettegen''
   \<and> paletteuse_args st ! 5 = scale st @ '',fps='' @ toString (fps st) @ '' [x]; [x][1:v] paletteuse''"
proof -
  have 3: "palettegen_args st ! 3 = scale st @ '',palettegen''"
    by (simp add: palettegen_args_def)
  have 5: "paletteuse_args st ! 5 = scale st @ '',fps='' @ toString (fps st) @ '' [x]; [x][1:v] paletteuse''"
    by (simp add: paletteuse_args_def)
  have "first_filter (palettegen_args st ! 3) = scale st"
    unfolding 3 using first_filter_scale[of st "''palettegen''"] by simp
  moreover have "first_filter (paletteuse_args st ! 5) = scale st"
    unfolding 5 using first_filter_scale[of st "''fps='' @ toString (fps st) @ '' [x]; [x][1:v] paletteuse''"] by simp
  ultimately show ?thesis using 3 5 by blast
qed

lemma scale_default: "scale default_settings = ''scale=256:144:flags=lanczos''"
  by code_simp

subsection \<open>The run driver\<close>

lemma run_transitions_append:
  "run_transitions st ext (xs @ ys) out =
     (case run_transitions st ext xs out of
        (Some e, out1) \<Rightarrow> (Some e, out1)
      | (None, out1) \<Rightarrow> run_transitions st ext ys out1)"
  by (induction xs arbitrary: out) (auto split: sum.splits)

lemma run_transitions_untouched:
  "run_transitions st ext ts out = (r, out1) \<Longrightarrow> \<forall>q\<in>set ts. q @ ''.gif'' \<noteq> name
     \<Longrightarrow> out1 name = out name"
proof (induction ts arbitrary: out)
  case Nil
  then show ?case by simp
next
  case (Cons t ts)
  show ?case
  proof (cases "generate_gif st ext t")
    case (Inl e)
    with Cons.prems show ?thesis by simp
  next
    case (Inr gif)
    with Cons.prems have "run_transitions st ext ts (out(t @ ''.gif'' \<mapsto> gif)) = (r, out1)"
      by simp
    moreover from Cons.prems have "\<forall>q\<in>set ts. q @ ''.gif'' \<noteq> name" by simp
    ultimately have "out1 name = (out(t @ ''.gif'' \<mapsto> gif)) name" by (rule Cons.IH)
    with Cons.prems(2) show ?thesis by auto
  qed
qed

lemma run_transitions_outputs:
  "run_transitions st ext ts out = (None, out1) \<Longrightarrow> p \<in> set ts
     \<Longrightarrow> \<exists>gif. generate_gif st ext p = Inr gif \<and> out1 (p @ ''.gif'') = Some gif"
proof (induction ts arbitrary: out)
  case Nil
  then show ?case by simp
next
  case (Cons t ts)
  from Cons.prems(1) obtain g where g: "generate_gif st ext t = Inr g"
    and rest: "run_transitions st ext ts (out(t @ ''.gif'' \<mapsto> g)) = (None, out1)"
    by (auto split: sum.splits)
  show ?case
  proof (cases "p \<in> set ts")
    case True
    with rest show ?thesis by (rule Cons.IH)
  next
    case False
    with Cons.prems(2) have pt: "p = t" by simp
    from False have "\<forall>q\<in>set ts. q @ ''.gif'' \<noteq> p @ ''.gif''" by auto
    with rest have "out1 (p @ ''.gif'') = (out(t @ ''.gif'' \<mapsto> g)) (p @ ''.gif'')"
      by (rule run_transitions_untouched)
    with g pt show ?thesis by simp
  qed
qed

lemma generate_gif_empty:
  "capture ext t = Inr ([], lastTimestamp) \<Longrightarrow> generate_gif st ext t = Inl TypeError"
  by (simp add: generate_gif_def resample_def)

lemma example_cover: "generate_gif default_settings example_externals ''cover'' = Inl TypeError"
  by (rule generate_gif_empty[where lastTimestamp = 0]) (simp add: example_externals_def)

lemma example_fade: "generate_gif default_settings example_externals ''fade'' = Inr ''out''"
  by code_simp

lemma example_zoom: "generate_gif default_settings example_externals ''zoom'' = Inr ''out''"
  by code_simp

lemma example_cube: "generate_gif default_settings example_externals ''cube'' = Inl ENOENT"
  by code_simp

text \<open>
  Against C5 as stated.  The recording of \<^verbatim>\<open>cover\<close> is empty and \<^verbatim>\<open>fade\<close> alone would
  succeed, but the run over \<^verbatim>\<open>cover, fade\<close> ends with the \<^verbatim>\<open>TypeError\<close> and never writes
  \<^verbatim>\<open>fade.gif\<close>.
\<close>

theorem empty_buffer_skip_counterexample:
  "capture example_externals ''cover'' = Inr ([], 0)
   \<and> generate_gif default_settings example_externals ''fade'' = Inr ''out''
   \<and> fst (run_transitions default_settings example_externals [''cover'', ''fade''] Map.empty)
       = Some TypeError
   \<and> snd (run_transitions default_settings example_externals [''cover'', ''fade''] Map.empty)
       ''fade.gif'' = None"
  by (simp add: example_cover example_fade) (simp add: example_externals_def)

text \<open>
  C5, as the code has it.  On an empty buffer \<^verbatim>\<open>captured[0].timestamp\<close> throws a
  \<^verbatim>\<open>TypeError\<close> before the frame count and any lookup are computed, whatever the settings
  and the ffmpeg calls would do.  Nothing catches it: the run ends with this error, the
  transitions after it are not processed, and the output directory is as the transitions
  before it left it.
\<close>

theorem empty_buffer_aborts_run:
  assumes "capture ext t = Inr ([], lastTimestamp)"
    and "run_transitions st ext pre out = (None, out1)"
  shows "resample st [] lastTimestamp = Inl TypeError
       \<and> generate_gif st ext t = Inl TypeError
       \<and> run_transitions st ext (pre @ t # rest) out = (Some TypeError, out1)"
proof -
  have 1: "resample st [] lastTimestamp = Inl TypeError" by (simp add: resample_def)
  have 2: "generate_gif st ext t = Inl TypeError" using assms(1) by (rule generate_gif_empty)
  have 3: "run_transitions st ext (pre @ t # rest) out = (Some TypeError, out1)"
    by (simp add: run_transitions_append assms(2) 2)
  from 1 2 3 show ?thesis by blast
qed

text \<open>
  The theorem at the run over \<^verbatim>\<open>fade, cover, zoom\<close>.
\<close>

theorem empty_buffer_aborts_run_witness:
  "capture example_externals ''cover'' = Inr ([], 0)
   \<and> run_transitions default_settings example_externals [''fade''] Map.empty
        = (None, [''fade.gif'' \<mapsto> ''out''])
   \<and> resample default_settings [] 0 = Inl TypeError
   \<and> generate_gif default_settings example_externals ''cover'' = Inl TypeError
   \<and> run_transitions default_settings example_externals ([''fade''] @ ''cover'' # [''zoom'']) Map.empty
        = (Some TypeError, [''fade.gif'' \<mapsto> ''out''])"
proof -
  have a: "capture example_externals ''cover'' = Inr ([], 0)" by (simp add: example_externals_def)
  have b: "run_transitions default_settings example_externals [''fade''] Map.empty
        = (None, [''fade.gif'' \<mapsto> ''out''])" by (simp add: example_fade)
  from empty_buffer_aborts_run[OF a b, of "[''zoom'']"] a b show ?thesis by blast
qed

text \<open>
  Against C6 as stated.  The encode of \<^verbatim>\<open>cube\<close> produces no \<^verbatim>\<open>animation.gif\<close> and
  \<^verbatim>\<open>zoom\<close> alone would succeed, but the run over \<^verbatim>\<open>fade, cube, zoom\<close> ends with the error
  of \<^verbatim>\<open>cube\<close> and never writes \<^verbatim>\<open>zoom.gif\<close>.
\<close>

theorem stage_failure_continue_counterexample:
  "generate_gif default_settings example_externals ''cube'' = Inl ENOENT
   \<and> generate_gif default_settings example_externals ''zoom'' = Inr ''out''
   \<and> fst (run_transitions default_settings example_externals [''fade'', ''cube'', ''zoom''] Map.empty)
       = Some ENOENT
   \<and> snd (run_transitions default_settings example_externals [''fade'', ''cube'', ''zoom''] Map.empty)
       ''zoom.gif'' = None"
  by (simp add: example_cube example_fade example_zoom)

text \<open>
  C6, as the code has it.  An error of one transition is not caught: it ends the loop, so
  the transitions after it are not processed.  The output directory is left as it was
  after the transitions completed before: each of them has its file with the content it
  produced, and every other file is unchanged.
\<close>

theorem variant_error_aborts_run:
  assumes "generate_gif st ext t = Inl e"
    and "run_transitions st ext pre out = (None, out1)"
  shows "run_transitions st ext (pre @ t # rest) out = (Some e, out1)
       \<and> (\<forall>p\<in>set pre. \<exists>gif. generate_gif st ext p = Inr gif \<and> out1 (p @ ''.gif'') = Some gif)
       \<and> (\<forall>name. (\<forall>q\<in>set pre. q @ ''.gif'' \<noteq> name) \<longrightarrow> out1 name = out name)"
proof (intro conjI ballI allI impI)
  show "run_transitions st ext (pre @ t # rest) out = (Some e, out1)"
    by (simp add: run_transitions_append assms)
next
  fix p assume "p \<in> set pre"
  with assms(2) show "\<exists>gif. generate_gif st ext p = Inr gif \<and> out1 (p @ ''.gif'') = Some gif"
    by (rule run_transitions_outputs)
next
  fix name assume "\<forall>q\<in>set pre. q @ ''.gif'' \<noteq> name"
  with assms(2) show "out1 name = out name" by (rule run_transitions_untouched)
qed

text \<open>
  The theorem at the run over \<^verbatim>\<open>fade, cube, zoom\<close>.
\<close>

theorem variant_error_aborts_run_witness:
  "generate_gif default_settings example_externals ''cube'' = Inl ENOENT
   \<and> run_transitions default_settings example_externals [''fade''] Map.empty
        = (None, [''fade.gif'' \<mapsto> ''out''])
   \<and> run_transitions default_settings example_externals ([''fade''] @ ''cube'' # [''zoom'']) Map.empty
        = (Some ENOENT, [''fade.gif'' \<mapsto> ''out''])
   \<and> (\<exists>gif. generate_gif default_settings example_externals ''fade'' = Inr gif
            \<and> [''fade.gif'' \<mapsto> ''out''] (''fade'' @ ''.gif'') = Some gif)
   \<and> [''fade.gif'' \<mapsto> ''out''] ''zoom.gif'' = Map.empty ''zoom.gif''"
proof -
  have a: "generate_gif default_settings example_externals ''cube'' = Inl ENOENT"
    by (rule example_cube)
  have b: "run_transitions default_settings example_externals [''fade''] Map.empty
        = (None, [''fade.gif'' \<mapsto> ''out''])" by (simp add: example_fade)
  note t = variant_error_aborts_run[OF a b, of "[''zoom'']"]
  from t have 1: "run_transitions default_settings example_externals ([''fade''] @ ''cube'' # [''zoom'']) Map.empty
        = (Some ENOENT, [''fade.gif'' \<mapsto> ''out''])" by blast
  from t have "\<forall>p\<in>set [''fade'']. \<exists>gif. generate_gif default_settings example_externals p = Inr gif
            \<and> [''fade.gif'' \<mapsto> ''out''] (p @ ''.gif'') = Some gif" by blast
  then have 2: "\<exists>gif. generate_gif default_settings example_externals ''fade'' = Inr gif
            \<and> [''fade.gif'' \<mapsto> ''out''] (''fade'' @ ''.gif'') = Some gif" by simp
  have 3: "[''fade.gif'' \<mapsto> ''out''] ''zoom.gif'' = Map.empty ''zoom.gif''" by simp
  from a b 1 2 3 show ?thesis by blast
qed

subsection \<open>Resampling on the store\<close>

lemma make_findFrame_fresh:
  assumes "p < length h" and "h ! p = Samples cs"
  shows "make_findFrame h p = Some (h @ [Numbers (capturedTimestamps cs)], length h)"
  using assms
  by (simp add: make_findFrame_def array_map_timestamp_def array_push_def capturedTimestamps_def
      nth_append)

lemma call_findFrame_fresh:
  assumes "p < length h" and "h ! p = Samples cs"
  shows "call_findFrame (h @ [Numbers (capturedTimestamps cs)]) p (length h) x = findFrame cs x"
  using assms by (simp add: call_findFrame_def findFrame_def nth_append)

lemma resample_store_eq:
  assumes "p < length h" and "h ! p = Samples cs"
  shows "resample_store st h p lastTimestamp =
           (resample st cs lastTimestamp,
            if cs = [] then h else h @ [Numbers (capturedTimestamps cs)])"
proof (cases cs)
  case Nil
  with assms show ?thesis by (simp add: resample_store_def resample_def)
next
  case (Cons c0 rest)
  with assms show ?thesis
    by (simp add: resample_store_def resample_def Let_def make_findFrame_fresh
        call_findFrame_fresh)
qed

text \<open>
  C7.  Resampling reads the buffer and writes only to the array of timestamps it has
  allocated itself.  Run twice on the same store, buffer and session end, it yields the same
  mapping from frames to samples both times, and the buffer is unchanged after each run.
\<close>

theorem resample_idempotent:
  assumes "p < length h" and "h ! p = Samples cs"
    and "resample_store st h p lastTimestamp = (r1, h1)"
    and "resample_store st h1 p lastTimestamp = (r2, h2)"
  shows "r1 = r2 \<and> r1 = resample st cs lastTimestamp
       \<and> h1 ! p = Samples cs \<and> h2 ! p = Samples cs"
proof -
  from assms(3) have r1: "r1 = resample st cs lastTimestamp"
    and h1: "h1 = (if cs = [] then h else h @ [Numbers (capturedTimestamps cs)])"
    unfolding resample_store_eq[OF assms(1,2)] by simp_all
  from h1 assms(1,2) have p1: "p < length h1" and s1: "h1 ! p = Samples cs"
    by (simp_all add: nth_append)
  from assms(4) have r2: "r2 = resample st cs lastTimestamp"
    and h2: "h2 = (if cs = [] then h1 else h1 @ [Numbers (capturedTimestamps cs)])"
    unfolding resample_store_eq[OF p1 s1] by simp_all
  from h2 p1 s1 have "h2 ! p = Samples cs" by (simp add: nth_append)
  with r1 r2 s1 show ?thesis by simp
qed

lemma capturedTimestamps_two:
  "capturedTimestamps [sample_at 0, sample_at 40] = [Num 0, Num 40, Infinity]"
  by (simp add: capturedTimestamps_def sample_at_def)

text \<open>
  The theorem at the two-sample session.
\<close>

theorem resample_idempotent_witness:
  "0 < length [Samples [sample_at 0, sample_at 40]]
   \<and> [Samples [sample_at 0, sample_at 40]] ! 0 = Samples [sample_at 0, sample_at 40]
   \<and> resample_store default_settings [Samples [sample_at 0, sample_at 40]] 0 100
       = (Inr [(0, 0, Some (sample_at 0)), (1, 40, Some (sample_at 0))],
          [Samples [sample_at 0, sample_at 40], Numbers [Num 0, Num 40, Infinity]])
   \<and> resample_store default_settings
         [Samples [sample_at 0, sample_at 40], Numbers [Num 0, Num 40, Infinity]] 0 100
       = (Inr [(0, 0, Some (sample_at 0)), (1, 40, Some (sample_at 0))],
          [Samples [sample_at 0, sample_at 40], Numbers [Num 0, Num 40, Infinity],
           Numbers [Num 0, Num 40, Infinity]])
   \<and> (Inr [(0, 0, Some (sample_at 0)), (1, 40, Some (sample_at 0))]
         :: error + (nat \<times> rat \<times> CaptureData option) list)
       = resample default_settings [sample_at 0, sample_at 40] 100
   \<and> [Samples [sample_at 0, sample_at 40], Numbers [Num 0, Num 40, Infinity]] ! 0
       = Samples [sample_at 0, sample_at 40]
   \<and> [Samples [sample_at 0, sample_at 40], Numbers [Num 0, Num 40, Infinity],
           Numbers [Num 0, Num 40, Infinity]] ! 0
       = Samples [sample_at 0, sample_at 40]"
proof -
  have a: "0 < length [Samples [sample_at 0, sample_at 40]]" by simp
  have b: "[Samples [sample_at 0, sample_at 40]] ! 0 = Samples [sample_at 0, sample_at 40]"
    by simp
  have c: "resample_store default_settings [Samples [sample_at 0, sample_at 40]] 0 100
       = (Inr [(0, 0, Some (sample_at 0)), (1, 40, Some (sample_at 0))],
          [Samples [sample_at 0, sample_at 40], Numbers [Num 0, Num 40, Infinity]])"
    by (simp add: resample_store_eq resample_two capturedTimestamps_two)
  have d: "resample_store default_settings
         [Samples [sample_at 0, sample_at 40], Numbers [Num 0, Num 40, Infinity]] 0 100
       = (Inr [(0, 0, Some (sample_at 0)), (1, 40, Some (sample_at 0))],
          [Samples [sample_at 0, sample_at 40], Numbers [Num 0, Num 40, Infinity],
           Numbers [Num 0, Num 40, Infinity]])"
    by (simp add: resample_store_eq resample_two capturedTimestamps_two)
  from resample_idempotent[OF a b c d] a b c d show ?thesis by simp
qed

end
